theory Spec2Isabelle
  imports Complex_Main
begin

section \<open>Python strings\<close>

text \<open>
  The class \<open>EvolutionGenerator\<close> of the notebook works on Python \<open>str\<close> values, which
  are sequences of Unicode code points. A string is modelled as the list of its code
  points, and \<open>lit\<close> gives the string of an ASCII literal.
\<close>

type_synonym pystr = "nat list"

definition lit :: "string \<Rightarrow> pystr" where
  "lit s = map of_char s"

text \<open>
  \<open>str.isspace\<close> on one character, which is also the whitespace of \<open>str.split()\<close> and
  \<open>str.strip()\<close>: the code points U+0009 to U+000D, U+001C to U+0020, U+0085, U+00A0,
  U+1680, U+2000 to U+200A, U+2028, U+2029, U+202F, U+205F and U+3000.
\<close>

definition py_isspace :: "nat \<Rightarrow> bool" where
  "py_isspace c =
     ((9 \<le> c \<and> c \<le> 13) \<or> (28 \<le> c \<and> c \<le> 32) \<or> c = 133 \<or> c = 160 \<or> c = 5760
      \<or> (8192 \<le> c \<and> c \<le> 8202) \<or> c = 8232 \<or> c = 8233 \<or> c = 8239 \<or> c = 8287
      \<or> c = 12288)"

text \<open>
  \<open>str.upper\<close> on one character; the result can have more than one character. Below
  U+0100 the table is that of Python: the letters a to z, the letters U+00E0 to U+00FE
  but for the division sign U+00F7, the micro sign (to U+039C), the sharp s (to \<open>SS\<close>)
  and U+00FF (to U+0178). From U+0100 on it has the two characters whose upper case is
  an ASCII letter, the dotless i U+0131 (to \<open>I\<close>) and the long s U+017F (to \<open>S\<close>);
  every other character stays as it is, where Python may give another character outside
  ASCII or a sequence that is not made of the letters of \<open>VALID\<close>. The comparison of
  an upper-cased string with \<open>VALID\<close>, the one use of \<open>upper\<close> in the code, is not
  affected.
\<close>

definition upper_char :: "nat \<Rightarrow> pystr" where
  "upper_char c =
     (if (97 \<le> c \<and> c \<le> 122) \<or> (224 \<le> c \<and> c \<le> 246) \<or> (248 \<le> c \<and> c \<le> 254) then [c - 32]
      else if c = 181 then [924]
      else if c = 223 then [83, 83]
      else if c = 255 then [376]
      else if c = 305 then [73]
      else if c = 383 then [83]
      else [c])"

definition py_upper :: "pystr \<Rightarrow> pystr" where
  "py_upper s = concat (map upper_char s)"

text \<open>\<open>s.strip()\<close>: leading and trailing whitespace removed.\<close>

definition py_strip :: "pystr \<Rightarrow> pystr" where
  "py_strip s = rev (dropWhile py_isspace (rev (dropWhile py_isspace s)))"

text \<open>
  \<open>s.split()\<close> with no argument: the maximal runs of non-whitespace characters, in order;
  no empty word is produced. \<open>split_from cur s\<close> scans \<open>s\<close> with the word read so far
  in \<open>cur\<close>.
\<close>

fun split_from :: "pystr \<Rightarrow> pystr \<Rightarrow> pystr list" where
  "split_from cur [] = (if cur = [] then [] else [cur])"
| "split_from cur (c # cs) =
     (if py_isspace c then (if cur = [] then split_from [] cs else cur # split_from [] cs)
      else split_from (cur @ [c]) cs)"

definition py_split :: "pystr \<Rightarrow> pystr list" where
  "py_split s = split_from [] s"

text \<open>\<open>' '.join(ws)\<close>; 32 is the space.\<close>

fun join_space :: "pystr list \<Rightarrow> pystr" where
  "join_space [] = []"
| "join_space [w] = w"
| "join_space (w # v # ws) = w @ [32] @ join_space (v # ws)"

section \<open>Python ranges and slices\<close>

datatype py_error = ValueError | AttributeError

text \<open>
  \<open>range(start, stop, step)\<close> as the list of its elements. A zero step raises
  \<open>ValueError\<close>; a positive step counts up while below \<open>stop\<close>, a negative one counts
  down while above it.
\<close>

function range_up :: "int \<Rightarrow> int \<Rightarrow> int \<Rightarrow> int list" where
  "range_up i stop step = (if 0 < step \<and> i < stop then i # range_up (i + step) stop step else [])"
  by pat_completeness auto
termination
  by (relation "measure (\<lambda>(i, stop, step). nat (stop - i))") auto

function range_down :: "int \<Rightarrow> int \<Rightarrow> int \<Rightarrow> int list" where
  "range_down i stop step = (if step < 0 \<and> stop < i then i # range_down (i + step) stop step else [])"
  by pat_completeness auto
termination
  by (relation "measure (\<lambda>(i, stop, step). nat (i - stop))") auto

definition py_range :: "int \<Rightarrow> int \<Rightarrow> int \<Rightarrow> py_error + int list" where
  "py_range start stop step =
     (if step = 0 then Inl ValueError
      else if 0 < step then Inr (range_up start stop step)
      else Inr (range_down start stop step))"

text \<open>
  \<open>xs[lo:hi]\<close>: a negative bound counts from the end, and both bounds are clamped to
  the list, so a slice never raises.
\<close>

definition slice_bound :: "int \<Rightarrow> nat \<Rightarrow> nat" where
  "slice_bound i n = (if i < 0 then nat (max 0 (int n + i)) else min (nat i) n)"

definition py_slice :: "'a list \<Rightarrow> int \<Rightarrow> int \<Rightarrow> 'a list" where
  "py_slice xs lo hi =
     (let n = length xs; l = slice_bound lo n; h = slice_bound hi n
      in take (h - l) (drop l xs))"

section \<open>Step 1: document chunking\<close>

text \<open>
  \<^verbatim>\<open>
  def chunk_document(self, doc, chunk_size=100):
      words = doc.split()
      chunks = [' '.join(words[i:i + chunk_size]) for i in range(0, len(words), chunk_size)]
      return chunks
  \<close>
\<close>

definition chunk_document :: "pystr \<Rightarrow> int \<Rightarrow> py_error + pystr list" where
  "chunk_document doc chunk_size =
     (let words = py_split doc
      in case py_range 0 (int (length words)) chunk_size of
           Inl e \<Rightarrow> Inl e
         | Inr is \<Rightarrow> Inr (map (\<lambda>i. join_space (py_slice words i (i + chunk_size))) is))"

section \<open>The text-generation port\<close>

text \<open>
  \<open>gpt\<close> sends the prompt to the chat-completion service and returns the content of the
  first choice, which is a string or \<open>None\<close>; any exception of the call is caught,
  reported on standard output and turned into \<open>None\<close>:
  \<^verbatim>\<open>
  def gpt(self, prompt):
      try:
          response = self.openai_client.chat.completions.create(...)
          result = response.choices[0].message.content
          return result
      except Exception as e:
          print(f"An error occurred on GPT: {e}")
          return None
  \<close>
  The service is a parameter of the model: a port maps a prompt and its own state to an
  answer and a new state, so that answers may depend on earlier calls. The world threaded
  through the pipeline holds the state of the port and the log of the calls made so far,
  each with the value \<open>gpt\<close> returned. Printing is not modelled.
\<close>

datatype api_result = ApiError | Content "pystr option"

type_synonym 's port = "pystr \<Rightarrow> 's \<Rightarrow> api_result \<times> 's"

record 's world =
  pstate :: 's
  calls :: "(pystr \<times> pystr option) list"

definition gpt :: "'s port \<Rightarrow> pystr \<Rightarrow> 's world \<Rightarrow> pystr option \<times> 's world" where
  "gpt port prompt w =
     (let (answer, s) = port prompt (pstate w);
          result = (case answer of ApiError \<Rightarrow> None | Content c \<Rightarrow> c)
      in (result, \<lparr>pstate = s, calls = calls w @ [(prompt, result)]\<rparr>))"

text \<open>
  The idiom \<open>if x: xs.append(x.strip())\<close> of steps 2 and 3: \<open>None\<close> and the empty string
  are falsy, every other string is stripped and appended.
\<close>

definition append_if_truthy :: "pystr list \<Rightarrow> pystr option \<Rightarrow> pystr list" where
  "append_if_truthy xs r =
     (case r of None \<Rightarrow> xs | Some s \<Rightarrow> if s \<noteq> [] then xs @ [py_strip s] else xs)"

section \<open>Step 2: simple questions\<close>

definition newline :: pystr where
  "newline = [10]"

definition dquote :: pystr where
  "dquote = [34]"

definition simple_prompt :: "pystr \<Rightarrow> pystr" where
  "simple_prompt chunk =
     lit ''Generate a simple factual question based on the following text:'' @ newline @ newline @ chunk"

text \<open>
  \<^verbatim>\<open>
  def generate_simple_questions(self, chunks):
      questions = []
      for chunk in chunks:
          prompt = f"Generate a simple factual question based on the following text:\n\n{chunk}"
          question = self.gpt(prompt)
          if question:
              questions.append(question.strip())
      return questions
  \<close>
\<close>

fun simple_questions_loop ::
  "'s port \<Rightarrow> pystr list \<Rightarrow> pystr list \<Rightarrow> 's world \<Rightarrow> pystr list \<times> 's world" where
  "simple_questions_loop port [] questions w = (questions, w)"
| "simple_questions_loop port (chunk # chunks) questions w =
     (let (question, w') = gpt port (simple_prompt chunk) w
      in simple_questions_loop port chunks (append_if_truthy questions question) w')"

definition generate_simple_questions ::
  "'s port \<Rightarrow> pystr list \<Rightarrow> 's world \<Rightarrow> pystr list \<times> 's world" where
  "generate_simple_questions port chunks w = simple_questions_loop port chunks [] w"

section \<open>Step 3: evolutions\<close>

definition complexity_prompt :: "pystr \<Rightarrow> pystr" where
  "complexity_prompt question =
     lit ''Transform the following simple question into a more complex reasoning question that requires multi-step logic or inference:''
       @ newline @ newline @ question"

definition compression_prompt :: "pystr \<Rightarrow> pystr" where
  "compression_prompt question =
     lit ''Rewrite the following question to be more concise, while retaining the original meaning:''
       @ newline @ newline @ question"

definition rephrasing_prompt :: "pystr \<Rightarrow> pystr" where
  "rephrasing_prompt question =
     lit ''Rephrase the following question in a different way to ask the same information:''
       @ newline @ newline @ question"

text \<open>
  \<^verbatim>\<open>
  def apply_evolutions(self, question):
      evolutions = []
      complex_question = self.gpt(complexity_prompt)
      if complex_question:
          evolutions.append(complex_question.strip())
      compressed_question = self.gpt(compression_prompt)
      if compressed_question:
          evolutions.append(compressed_question.strip())
      rephrased_question = self.gpt(rephrasing_prompt)
      if rephrased_question:
          evolutions.append(rephrased_question.strip())
      return evolutions
  \<close>
\<close>

definition apply_evolutions :: "'s port \<Rightarrow> pystr \<Rightarrow> 's world \<Rightarrow> pystr list \<times> 's world" where
  "apply_evolutions port question w =
     (let evolutions = [];
          (complex_question, w1) = gpt port (complexity_prompt question) w;
          evolutions = append_if_truthy evolutions complex_question;
          (compressed_question, w2) = gpt port (compression_prompt question) w1;
          evolutions = append_if_truthy evolutions compressed_question;
          (rephrased_question, w3) = gpt port (rephrasing_prompt question) w2;
          evolutions = append_if_truthy evolutions rephrased_question
      in (evolutions, w3))"

text \<open>
  \<^verbatim>\<open>
  def generate_evolved_questions(self, questions):
      all_evolved_questions = []
      for question in questions:
          evolved_questions = self.apply_evolutions(question)
          all_evolved_questions.append((question, evolved_questions))
      return all_evolved_questions
  \<close>
\<close>

fun evolved_questions_loop ::
  "'s port \<Rightarrow> pystr list \<Rightarrow> (pystr \<times> pystr list) list \<Rightarrow> 's world
     \<Rightarrow> (pystr \<times> pystr list) list \<times> 's world" where
  "evolved_questions_loop port [] all_evolved_questions w = (all_evolved_questions, w)"
| "evolved_questions_loop port (question # questions) all_evolved_questions w =
     (let (evolved_questions, w') = apply_evolutions port question w
      in evolved_questions_loop port questions
           (all_evolved_questions @ [(question, evolved_questions)]) w')"

definition generate_evolved_questions ::
  "'s port \<Rightarrow> pystr list \<Rightarrow> 's world \<Rightarrow> (pystr \<times> pystr list) list \<times> 's world" where
  "generate_evolved_questions port questions w = evolved_questions_loop port questions [] w"

section \<open>Step 4: the critic\<close>

text \<open>
  The prompt is a triple-quoted f-string inside a method body, so each of its lines
  carries the eight spaces of the source's indentation.
\<close>

definition indent :: pystr where
  "indent = lit ''        ''"

definition critic_prompt :: "pystr \<Rightarrow> pystr \<Rightarrow> pystr" where
  "critic_prompt original_question evolved_question =
     newline
     @ indent @ lit ''Evaluate the following evolved question to determine if it is sufficiently different from the original question while conveying the same meaning.'' @ newline
     @ indent @ lit ''Original Question: '' @ dquote @ original_question @ dquote @ newline
     @ indent @ lit ''Evolved Question: '' @ dquote @ evolved_question @ dquote @ newline
     @ newline
     @ indent @ lit ''Answer '' @ dquote @ lit ''VALID'' @ dquote @ lit '' if the evolved question meets both criteria. Answer ''
         @ dquote @ lit ''INVALID'' @ dquote @ lit '' if it fails either criterion.'' @ newline
     @ indent"

text \<open>
  \<^verbatim>\<open>
  def critic(self, original_question, evolved_question):
      result = self.gpt(critic_prompt)
      return result.strip().upper() == "VALID"
  \<close>
  When \<open>gpt\<close> returns \<open>None\<close>, \<open>result.strip()\<close> raises \<open>AttributeError\<close>.
\<close>

definition critic :: "'s port \<Rightarrow> pystr \<Rightarrow> pystr \<Rightarrow> 's world \<Rightarrow> (py_error + bool) \<times> 's world" where
  "critic port original_question evolved_question w =
     (let (result, w') = gpt port (critic_prompt original_question evolved_question) w
      in case result of
           None \<Rightarrow> (Inl AttributeError, w')
         | Some r \<Rightarrow> (Inr (py_upper (py_strip r) = lit ''VALID''), w'))"

text \<open>
  \<^verbatim>\<open>
  def validate_evolved_questions(self, evolved_questions):
      valid_evolved_questions = []
      for original_question, evolutions in evolved_questions:
          for evolved_question in evolutions:
              is_valid = self.critic(original_question, evolved_question)
              if is_valid:
                  valid_evolved_questions.append(evolved_question)
      return valid_evolved_questions
  \<close>
  An exception of the critic leaves both loops and the function. The \<open>print\<close> statements
  of the loops are left out.
\<close>

fun validate_evolutions ::
  "'s port \<Rightarrow> pystr \<Rightarrow> pystr list \<Rightarrow> pystr list \<Rightarrow> 's world
     \<Rightarrow> (py_error + pystr list) \<times> 's world" where
  "validate_evolutions port original_question [] valid_evolved_questions w =
     (Inr valid_evolved_questions, w)"
| "validate_evolutions port original_question (evolved_question # evolutions) valid_evolved_questions w =
     (case critic port original_question evolved_question w of
        (Inl e, w') \<Rightarrow> (Inl e, w')
      | (Inr is_valid, w') \<Rightarrow>
          validate_evolutions port original_question evolutions
            (if is_valid then valid_evolved_questions @ [evolved_question]
             else valid_evolved_questions) w')"

fun validate_loop ::
  "'s port \<Rightarrow> (pystr \<times> pystr list) list \<Rightarrow> pystr list \<Rightarrow> 's world
     \<Rightarrow> (py_error + pystr list) \<times> 's world" where
  "validate_loop port [] valid_evolved_questions w = (Inr valid_evolved_questions, w)"
| "validate_loop port ((original_question, evolutions) # rest) valid_evolved_questions w =
     (case validate_evolutions port original_question evolutions valid_evolved_questions w of
        (Inl e, w') \<Rightarrow> (Inl e, w')
      | (Inr valid', w') \<Rightarrow> validate_loop port rest valid' w')"

definition validate_evolved_questions ::
  "'s port \<Rightarrow> (pystr \<times> pystr list) list \<Rightarrow> 's world \<Rightarrow> (py_error + pystr list) \<times> 's world" where
  "validate_evolved_questions port evolved_questions w = validate_loop port evolved_questions [] w"

section \<open>The run of the notebook\<close>

text \<open>
  The cells after the class run the four steps in sequence on a document:
  \<^verbatim>\<open>
  chunks = generator.chunk_document(document)
  simple_questions = generator.generate_simple_questions(chunks)
  evolved_questions = generator.generate_evolved_questions(simple_questions)
  valid_evolved_questions = generator.validate_evolved_questions(evolved_questions)
  \<close>
  \<open>pipeline\<close> is that sequence, with the chunk size passed to \<open>chunk_document\<close>.
\<close>

definition pipeline ::
  "'s port \<Rightarrow> pystr \<Rightarrow> int \<Rightarrow> 's world \<Rightarrow> (py_error + pystr list) \<times> 's world" where
  "pipeline port document chunk_size w =
     (case chunk_document document chunk_size of
        Inl e \<Rightarrow> (Inl e, w)
      | Inr chunks \<Rightarrow>
          (let (simple_questions, w1) = generate_simple_questions port chunks w;
               (evolved_questions, w2) = generate_evolved_questions port simple_questions w1
           in validate_evolved_questions port evolved_questions w2))"

definition initial_world :: "'s \<Rightarrow> 's world" where
  "initial_world s = \<lparr>pstate = s, calls = []\<rparr>"

section \<open>Ports used in the statements\<close>

text \<open>
  A port whose every call fails, a port with one fixed answer, and a port with state, which
  answers \<open>INVALID\<close> and \<open>VALID\<close> in turn. \<open>numbered_port lo hi\<close> counts its calls from
  its initial state: it fails on the calls numbered \<open>lo\<close> to \<open>hi - 1\<close> and answers any
  other call with the character of code 48 plus the number of the call (a digit, for the
  first ten calls) between two spaces. \<open>answers_with_text\<close> says that a port answers every
  prompt, in every state, with a string.
\<close>

definition failing_port :: "'s port" where
  "failing_port prompt s = (ApiError, s)"

definition constant_port :: "pystr \<Rightarrow> 's port" where
  "constant_port r prompt s = (Content (Some r), s)"

definition alternating_port :: "bool port" where
  "alternating_port prompt s = (Content (Some (if s then lit ''VALID'' else lit ''INVALID'')), \<not> s)"

definition numbered_port :: "nat \<Rightarrow> nat \<Rightarrow> nat port" where
  "numbered_port lo hi prompt n =
     (if lo \<le> n \<and> n < hi then ApiError else Content (Some [32, 48 + n, 32]), Suc n)"

definition answers_with_text :: "'s port \<Rightarrow> bool" where
  "answers_with_text port = (\<forall>prompt s. \<exists>r s'. port prompt s = (Content (Some r), s'))"

text \<open>
  Modelled from the spec: the fixture port of the end-to-end scenario, which the repository
  does not contain. It answers the prompt of each segment with the baseline question
  \<open>Q1?\<close> or \<open>Q2?\<close>, the three evolution prompts of each baseline question with
  \<open>C1?\<close>, \<open>Co1?\<close>, \<open>R1?\<close> and \<open>C2?\<close>, \<open>Co2?\<close>, \<open>R2?\<close>, and the critic's prompt with
  \<open>VALID\<close> for the compression and rephrasing outputs and \<open>INVALID\<close> for the
  complexity outputs. Any other prompt fails.
\<close>

definition fixture_answers :: "(pystr \<times> pystr) list" where
  "fixture_answers =
     [(simple_prompt (lit ''Alpha beta''), lit ''Q1?''),
      (simple_prompt (lit ''gamma delta''), lit ''Q2?''),
      (complexity_prompt (lit ''Q1?''), lit ''C1?''),
      (compression_prompt (lit ''Q1?''), lit ''Co1?''),
      (rephrasing_prompt (lit ''Q1?''), lit ''R1?''),
      (complexity_prompt (lit ''Q2?''), lit ''C2?''),
      (compression_prompt (lit ''Q2?''), lit ''Co2?''),
      (rephrasing_prompt (lit ''Q2?''), lit ''R2?''),
      (critic_prompt (lit ''Q1?'') (lit ''C1?''), lit ''INVALID''),
      (critic_prompt (lit ''Q1?'') (lit ''Co1?''), lit ''VALID''),
      (critic_prompt (lit ''Q1?'') (lit ''R1?''), lit ''VALID''),
      (critic_prompt (lit ''Q2?'') (lit ''C2?''), lit ''INVALID''),
      (critic_prompt (lit ''Q2?'') (lit ''Co2?''), lit ''VALID''),
      (critic_prompt (lit ''Q2?'') (lit ''R2?''), lit ''VALID'')]"

definition fixture_port :: "unit port" where
  "fixture_port prompt s =
     (case map_of fixture_answers prompt of
        Some answer \<Rightarrow> (Content (Some answer), s)
      | None \<Rightarrow> (ApiError, s))"

section \<open>Notions used to state the properties\<close>

text \<open>
  A word is a non-empty string without whitespace. \<open>windows n xs\<close> cuts a list into
  consecutive, non-overlapping windows of \<open>n\<close> elements, the last one possibly shorter.
\<close>

definition is_word :: "pystr \<Rightarrow> bool" where
  "is_word w = (w \<noteq> [] \<and> (\<forall>c \<in> set w. \<not> py_isspace c))"

function windows :: "nat \<Rightarrow> 'a list \<Rightarrow> 'a list list" where
  "windows n xs = (if n = 0 \<or> xs = [] then [] else take n xs # windows n (drop n xs))"
  by pat_completeness auto
termination
  by (relation "measure (\<lambda>(n, xs). length xs)") auto

declare windows.simps [simp del]

text \<open>
  What one call of the port gives: \<open>answer_of\<close> is the value that reaches the caller of
  \<open>gpt\<close>, and \<open>candidate_of\<close> is what an evolution stage makes of it, nothing when the
  call failed or gave \<open>None\<close> or the empty string, and the stripped answer otherwise.
\<close>

definition answer_of :: "api_result \<Rightarrow> pystr option" where
  "answer_of a = (case a of ApiError \<Rightarrow> None | Content c \<Rightarrow> c)"

definition candidate_of :: "api_result \<Rightarrow> pystr list" where
  "candidate_of a =
     (case a of
        ApiError \<Rightarrow> []
      | Content None \<Rightarrow> []
      | Content (Some r) \<Rightarrow> if r = [] then [] else [py_strip r])"

text \<open>
  The candidates of a run are the pairs of a baseline question and one of its evolutions,
  in the order in which \<open>validate_evolved_questions\<close> visits them. The verdict recorded
  for a logged answer of the port is the critic's reading of it (no verdict is true for a
  missing answer), and \<open>accepted\<close> keeps, in order, the candidates whose logged answer has
  a true verdict.
\<close>

definition candidates :: "(pystr \<times> pystr list) list \<Rightarrow> (pystr \<times> pystr) list" where
  "candidates evolved_questions = concat (map (\<lambda>(q, evolutions). map (Pair q) evolutions) evolved_questions)"

definition verdict :: "pystr option \<Rightarrow> bool" where
  "verdict r = (case r of None \<Rightarrow> False | Some s \<Rightarrow> py_upper (py_strip s) = lit ''VALID'')"

definition accepted :: "(pystr \<times> pystr) list \<Rightarrow> (pystr \<times> pystr option) list \<Rightarrow> pystr list" where
  "accepted cands answers = map (snd \<circ> fst) (filter (\<lambda>(c, a). verdict (snd a)) (zip cands answers))"

section \<open>Chunking with a negative chunk size\<close>

text \<open>
  C10. For every document and every negative chunk size, \<open>chunk_document\<close> returns the
  empty list of segments and raises nothing: \<open>range(0, len(words), chunk_size)\<close> is empty
  because its start, 0, is not above its stop.
\<close>

theorem chunk_document_negative:
  "chunk_size < 0 \<Longrightarrow> chunk_document doc chunk_size = Inr []"
  by (simp add: chunk_document_def py_range_def)

theorem chunk_document_negative_witness:
  "(-3 :: int) < 0 \<and> chunk_document (lit ''Alpha beta gamma delta'') (-3) = Inr []"
  using chunk_document_negative [of "-3" "lit ''Alpha beta gamma delta''"] by simp

section \<open>Chunking with a positive chunk size\<close>

subsection \<open>Splitting and joining\<close>

lemma split_from_words:
  "cur = [] \<or> is_word cur \<Longrightarrow> \<forall>w \<in> set (split_from cur s). is_word w"
proof (induction s arbitrary: cur)
  case Nil
  then show ?case by auto
next
  case (Cons c cs)
  have a: "\<forall>w \<in> set (split_from [] cs). is_word w"
    by (rule Cons.IH) simp
  show ?case
  proof (cases "py_isspace c")
    case True
    with a Cons.prems show ?thesis by auto
  next
    case False
    with Cons.prems have "is_word (cur @ [c])"
      by (auto simp: is_word_def)
    then have "\<forall>w \<in> set (split_from (cur @ [c]) cs). is_word w"
      by (intro Cons.IH) simp
    with False show ?thesis by simp
  qed
qed

lemma py_split_words: "\<forall>w \<in> set (py_split s). is_word w"
  unfolding py_split_def by (rule split_from_words) simp

lemma split_from_append_word:
  "\<forall>c \<in> set w. \<not> py_isspace c \<Longrightarrow> split_from cur (w @ s) = split_from (cur @ w) s"
  by (induction w arbitrary: cur) auto

lemma space_isspace: "py_isspace 32"
  by (simp add: py_isspace_def)

lemma split_from_join:
  "\<forall>w \<in> set ws. is_word w \<Longrightarrow> split_from [] (join_space ws) = ws"
proof (induction ws rule: join_space.induct)
  case 1
  then show ?case by simp
next
  case (2 w)
  then have "split_from [] (w @ []) = split_from ([] @ w) []"
    by (intro split_from_append_word) (simp add: is_word_def)
  with 2 show ?case by (simp add: is_word_def)
next
  case (3 w v ws)
  then have w: "is_word w" and rest: "split_from [] (join_space (v # ws)) = v # ws"
    by simp_all
  have "split_from [] (w @ [32] @ join_space (v # ws)) = split_from ([] @ w) ([32] @ join_space (v # ws))"
    using w by (intro split_from_append_word) (simp add: is_word_def)
  also have "\<dots> = w # split_from [] (join_space (v # ws))"
    using w by (simp add: is_word_def space_isspace)
  finally show ?case using rest by simp
qed

lemma py_split_join: "\<forall>w \<in> set ws. is_word w \<Longrightarrow> py_split (join_space ws) = ws"
  by (simp add: py_split_def split_from_join)

lemma join_space_append:
  "xs \<noteq> [] \<Longrightarrow> ys \<noteq> [] \<Longrightarrow> join_space (xs @ ys) = join_space xs @ [32] @ join_space ys"
proof (induction xs rule: join_space.induct)
  case 1
  then show ?case by simp
next
  case (2 w)
  then show ?case by (cases ys) simp_all
next
  case (3 w v ws)
  then show ?case by simp
qed

lemma join_space_Cons:
  "ys \<noteq> [] \<Longrightarrow> join_space (w # ys) = w @ [32] @ join_space ys"
  by (cases ys) simp_all

lemma join_space_concat:
  "\<forall>cs \<in> set css. cs \<noteq> [] \<Longrightarrow> join_space (map join_space css) = join_space (concat css)"
proof (induction css)
  case Nil
  then show ?case by simp
next
  case (Cons cs css)
  show ?case
  proof (cases "css = []")
    case True
    then show ?thesis by simp
  next
    case False
    with Cons.prems have ne: "cs \<noteq> []" "concat css \<noteq> []" "map join_space css \<noteq> []"
      by (auto simp: neq_Nil_conv)
    from Cons have IH: "join_space (map join_space css) = join_space (concat css)"
      by simp
    show ?thesis
      using ne IH by (simp add: join_space_Cons join_space_append)
  qed
qed

lemma windows_Nil [simp]: "windows n [] = []"
  by (simp add: windows.simps)

lemma windows_step: "0 < n \<Longrightarrow> xs \<noteq> [] \<Longrightarrow> windows n xs = take n xs # windows n (drop n xs)"
  by (subst windows.simps) simp

lemma concat_windows: "0 < n \<Longrightarrow> concat (windows n xs) = xs"
proof (induction n xs rule: windows.induct)
  case (1 n xs)
  then show ?case by (cases "xs = []") (simp_all add: windows_step)
qed

lemma windows_nonempty: "\<forall>cs \<in> set (windows n xs). cs \<noteq> []"
proof (induction n xs rule: windows.induct)
  case (1 n xs)
  then show ?case by (subst windows.simps) auto
qed

lemma set_windows_subset: "cs \<in> set (windows n xs) \<Longrightarrow> set cs \<subseteq> set xs"
proof (induction n xs rule: windows.induct)
  case (1 n xs)
  from "1.prems" have ne: "\<not> (n = 0 \<or> xs = [])"
    by (subst (asm) windows.simps) (auto split: if_splits)
  with "1.prems" have "cs = take n xs \<or> cs \<in> set (windows n (drop n xs))"
    by (subst (asm) windows.simps) simp
  then show ?case
    using "1.IH"[OF ne] by (auto dest: in_set_takeD in_set_dropD)
qed

lemma ceil_div_le: "0 < n \<Longrightarrow> 0 < m \<Longrightarrow> m \<le> n \<Longrightarrow> (m + n - 1) div n = (1::nat)"
proof -
  assume a: "0 < n" "0 < m" "m \<le> n"
  then have "(m + n - 1) div n = ((m - 1) + n) div n" by simp
  also have "\<dots> = 1" using a by (subst div_add_self2) simp_all
  finally show ?thesis .
qed

lemma ceil_div_step: "0 < n \<Longrightarrow> n < m \<Longrightarrow> (m + n - 1) div n = Suc ((m - n + n - 1) div n)"
proof -
  assume a: "0 < n" "n < m"
  then have "(m + n - 1) div n = ((m - 1) + n) div n" by simp
  also have "\<dots> = Suc ((m - 1) div n)" using a by (subst div_add_self2) simp_all
  also have "\<dots> = Suc ((m - n + n - 1) div n)" using a by simp
  finally show ?thesis .
qed

lemma length_windows: "0 < n \<Longrightarrow> length (windows n xs) = (length xs + n - 1) div n"
proof (induction n xs rule: windows.induct)
  case (1 n xs)
  show ?case
  proof (cases "xs = []")
    case True
    with "1.prems" show ?thesis by simp
  next
    case False
    with 1 have IH: "length (windows n (drop n xs)) = (length xs - n + n - 1) div n" by simp
    show ?thesis
    proof (cases "length xs \<le> n")
      case True
      with False "1.prems" have "(length xs + n - 1) div n = 1"
        by (intro ceil_div_le) simp_all
      with True False "1.prems" IH show ?thesis by (simp add: windows_step)
    next
      case False
      then have "(length xs + n - 1) div n = Suc ((length xs - n + n - 1) div n)"
        using "1.prems" by (intro ceil_div_step) simp_all
      with \<open>xs \<noteq> []\<close> "1.prems" IH show ?thesis by (simp add: windows_step)
    qed
  qed
qed

lemma ceiling_div:
  assumes "0 < n"
  shows "int ((m + n - 1) div n) = \<lceil>real m / real n\<rceil>"
proof -
  define q where "q = (m + n - 1) div n"
  have 1: "q * n \<le> m + n - 1"
    by (simp add: q_def)
  have 2: "m + n - 1 < n + q * n"
    unfolding q_def using assms by (rule dividend_less_div_times)
  from 2 have "m \<le> q * n" by simp
  then have "real m \<le> real (q * n)" by (simp only: of_nat_le_iff)
  then have a: "real m \<le> real q * real n" by simp
  from 1 assms have "q * n < m + n" by simp
  then have "real (q * n) < real (m + n)" by (simp only: of_nat_less_iff)
  then have b: "(real q - 1) * real n < real m" by (simp add: algebra_simps)
  have "\<lceil>real m / real n\<rceil> = int q"
  proof (rule ceiling_unique)
    show "of_int (int q) - 1 < real m / real n"
      using assms b by (simp add: pos_less_divide_eq)
    show "real m / real n \<le> of_int (int q)"
      using assms a by (simp add: pos_divide_le_eq)
  qed
  then show ?thesis by (simp add: q_def)
qed

lemma windows_nth_length:
  "0 < n \<Longrightarrow> k < length (windows n xs) \<Longrightarrow>
     length (windows n xs ! k) \<le> n \<and> (Suc k < length (windows n xs) \<longrightarrow> length (windows n xs ! k) = n)"
proof (induction n xs arbitrary: k rule: windows.induct)
  case (1 n xs)
  from "1.prems" have ne: "xs \<noteq> []" by auto
  with "1.prems" have step: "windows n xs = take n xs # windows n (drop n xs)"
    by (simp add: windows_step)
  show ?case
  proof (cases k)
    case 0
    have "length (windows n (drop n xs)) > 0 \<Longrightarrow> n \<le> length xs"
      by (cases "n \<le> length xs") auto
    with 0 step show ?thesis by auto
  next
    case (Suc j)
    with "1.prems" step have "j < length (windows n (drop n xs))" by simp
    with "1.IH" ne "1.prems" Suc step show ?thesis by simp
  qed
qed

lemma slice_window:
  "0 < n \<Longrightarrow> py_slice ws (int k) (int k + int n) = take n (drop k ws)"
  by (auto simp: py_slice_def slice_bound_def Let_def min_def simp flip: of_nat_add)

lemma chunks_windows:
  "0 < n \<Longrightarrow>
   map (\<lambda>i. f (py_slice ws i (i + int n))) (range_up (int k) (int (length ws)) (int n))
     = map f (windows n (drop k ws))"
proof (induction "length ws - k" arbitrary: k rule: less_induct)
  case less
  show ?case
  proof (cases "k < length ws")
    case False
    then show ?thesis by simp
  next
    case True
    then have "length ws - (k + n) < length ws - k" using less.prems by simp
    then have IH: "map (\<lambda>i. f (py_slice ws i (i + int n))) (range_up (int (k + n)) (int (length ws)) (int n))
        = map f (windows n (drop (k + n) ws))"
      using less.prems by (intro less.hyps)
    have r: "range_up (int k) (int (length ws)) (int n) = int k # range_up (int (k + n)) (int (length ws)) (int n)"
      using True less.prems by (subst range_up.simps) simp
    have w: "windows n (drop k ws) = take n (drop k ws) # windows n (drop (k + n) ws)"
      using True less.prems by (simp add: windows_step add.commute)
    show ?thesis
      using less.prems by (simp only: r w list.map IH slice_window)
  qed
qed

text \<open>
  C3. For every document \<open>D\<close> and every positive chunk size \<open>W\<close>, \<open>chunk_document\<close>
  returns segments whose space-joined concatenation is the whitespace-normalised text of
  \<open>D\<close> (the words of \<open>D\<close> joined by single spaces) and whose words, read in order, are
  the words of \<open>D\<close>; the number of segments is the ceiling of the word count divided by
  \<open>W\<close>; every segment has at most \<open>W\<close> words and every segment but the last exactly
  \<open>W\<close>; the empty document gives no segment.
\<close>

theorem chunk_document_positive:
  assumes "0 < W"
  shows "\<exists>segs. chunk_document D W = Inr segs
     \<and> join_space segs = join_space (py_split D)
     \<and> concat (map py_split segs) = py_split D
     \<and> int (length segs) = \<lceil>real (length (py_split D)) / real_of_int W\<rceil>
     \<and> (\<forall>k < length segs. int (length (py_split (segs ! k))) \<le> W
            \<and> (Suc k < length segs \<longrightarrow> int (length (py_split (segs ! k))) = W))
     \<and> chunk_document [] W = Inr []"
proof -
  define n where "n = nat W"
  define ws where "ws = py_split D"
  define segs where "segs = map join_space (windows n ws)"
  from assms have n: "0 < n" "W = int n" by (simp_all add: n_def)
  have cd: "chunk_document D W = Inr segs"
    using n chunks_windows [of n join_space ws 0]
    by (simp add: chunk_document_def py_range_def ws_def segs_def)
  have words: "\<forall>cs \<in> set (windows n ws). \<forall>w \<in> set cs. is_word w"
    using set_windows_subset py_split_words unfolding ws_def by blast
  have sp: "map py_split segs = windows n ws"
    unfolding segs_def using words by (simp add: map_idI py_split_join)
  have j: "join_space segs = join_space ws"
    unfolding segs_def using n by (simp add: join_space_concat windows_nonempty concat_windows)
  have c: "concat (map py_split segs) = ws"
    using n by (simp add: sp concat_windows)
  have l: "int (length segs) = \<lceil>real (length ws) / real_of_int W\<rceil>"
    using n ceiling_div [of n "length ws"] by (simp add: segs_def length_windows)
  have k: "\<forall>k < length segs. int (length (py_split (segs ! k))) \<le> W
            \<and> (Suc k < length segs \<longrightarrow> int (length (py_split (segs ! k))) = W)"
  proof (intro allI impI)
    fix k assume "k < length segs"
    then have kl: "k < length (windows n ws)" by (simp add: segs_def)
    then have "py_split (segs ! k) = windows n ws ! k"
      using sp by (metis length_map nth_map)
    moreover have "length segs = length (windows n ws)" by (simp add: segs_def)
    ultimately show "int (length (py_split (segs ! k))) \<le> W
            \<and> (Suc k < length segs \<longrightarrow> int (length (py_split (segs ! k))) = W)"
      using windows_nth_length [OF n(1) kl] n(2) by simp
  qed
  have e: "chunk_document [] W = Inr []"
    using assms by (simp add: chunk_document_def py_range_def py_split_def)
  from cd j c l k e show ?thesis unfolding ws_def by blast
qed

theorem chunk_document_positive_witness:
  "(0::int) < 2 \<and> chunk_document (lit ''Alpha beta gamma'') 2 = Inr [lit ''Alpha beta'', lit ''gamma'']
     \<and> join_space [lit ''Alpha beta'', lit ''gamma''] = join_space (py_split (lit ''Alpha beta gamma''))
     \<and> int (length [lit ''Alpha beta'', lit ''gamma'']) = \<lceil>real (length (py_split (lit ''Alpha beta gamma''))) / real_of_int 2\<rceil>
     \<and> int (length (py_split ([lit ''Alpha beta'', lit ''gamma''] ! 0))) = 2
     \<and> int (length (py_split ([lit ''Alpha beta'', lit ''gamma''] ! 1))) \<le> 2
     \<and> chunk_document [97, 160, 98, 133, 99, 8195, 100] 2 = Inr [[97, 32, 98], [99, 32, 100]]"
proof -
  have pos: "(0::int) < 2" by simp
  have cd: "chunk_document (lit ''Alpha beta gamma'') 2 = Inr [lit ''Alpha beta'', lit ''gamma'']"
    by (simp add: lit_def chunk_document_def py_split_def py_isspace_def py_range_def py_slice_def
        slice_bound_def)
  from chunk_document_positive [OF pos, of "lit ''Alpha beta gamma''"] cd
  have "join_space [lit ''Alpha beta'', lit ''gamma''] = join_space (py_split (lit ''Alpha beta gamma''))"
    and "int (length [lit ''Alpha beta'', lit ''gamma'']) = \<lceil>real (length (py_split (lit ''Alpha beta gamma''))) / real_of_int 2\<rceil>"
    and "\<forall>k < length [lit ''Alpha beta'', lit ''gamma'']. int (length (py_split ([lit ''Alpha beta'', lit ''gamma''] ! k))) \<le> 2
            \<and> (Suc k < length [lit ''Alpha beta'', lit ''gamma''] \<longrightarrow> int (length (py_split ([lit ''Alpha beta'', lit ''gamma''] ! k))) = 2)"
    by auto
  moreover have "chunk_document [97, 160, 98, 133, 99, 8195, 100] 2 = Inr [[97, 32, 98], [99, 32, 100]]"
    by (simp add: chunk_document_def py_split_def py_isspace_def py_range_def py_slice_def
        slice_bound_def)
  ultimately show ?thesis using pos cd by auto
qed

section \<open>Calls of the port\<close>

lemma gpt_result:
  "gpt port prompt w = (r, w') \<Longrightarrow> calls w' = calls w @ [(prompt, r)]"
  by (auto simp: gpt_def Let_def split: prod.splits)

lemma gpt_content:
  "port prompt (pstate w) = (Content c, s) \<Longrightarrow>
     gpt port prompt w = (c, \<lparr>pstate = s, calls = calls w @ [(prompt, c)]\<rparr>)"
  by (simp add: gpt_def)

lemma gpt_failing:
  "gpt failing_port prompt w = (None, \<lparr>pstate = pstate w, calls = calls w @ [(prompt, None)]\<rparr>)"
  by (simp add: gpt_def failing_port_def)

lemma append_if_truthy_acc: "append_if_truthy xs r = xs @ append_if_truthy [] r"
  by (simp add: append_if_truthy_def split: option.splits)

lemma gpt_port:
  "port prompt (pstate w) = (a, s) \<Longrightarrow>
     gpt port prompt w = (answer_of a, \<lparr>pstate = s, calls = calls w @ [(prompt, answer_of a)]\<rparr>)"
  by (simp add: gpt_def answer_of_def Let_def)

lemma append_if_truthy_candidate:
  "append_if_truthy xs (answer_of a) = xs @ candidate_of a"
  by (simp add: append_if_truthy_def answer_of_def candidate_of_def
      split: api_result.splits option.splits)

lemma candidate_of_length: "length (candidate_of a) \<le> 1"
  by (simp add: candidate_of_def split: api_result.splits option.splits)

lemma candidate_of_None: "answer_of a = None \<Longrightarrow> candidate_of a = []"
  by (simp add: answer_of_def candidate_of_def split: api_result.splits)

lemma apply_evolutions_port:
  assumes "port (complexity_prompt question) (pstate w) = (a1, s1)"
    and "port (compression_prompt question) s1 = (a2, s2)"
    and "port (rephrasing_prompt question) s2 = (a3, s3)"
  shows "apply_evolutions port question w =
      (candidate_of a1 @ candidate_of a2 @ candidate_of a3,
       \<lparr>pstate = s3,
        calls = calls w @ [(complexity_prompt question, answer_of a1),
                           (compression_prompt question, answer_of a2),
                           (rephrasing_prompt question, answer_of a3)]\<rparr>)"
proof -
  let ?w1 = "\<lparr>pstate = s1, calls = calls w @ [(complexity_prompt question, answer_of a1)]\<rparr>"
  let ?w2 = "\<lparr>pstate = s2, calls = calls w @ [(complexity_prompt question, answer_of a1),
      (compression_prompt question, answer_of a2)]\<rparr>"
  let ?w3 = "\<lparr>pstate = s3, calls = calls w @ [(complexity_prompt question, answer_of a1),
      (compression_prompt question, answer_of a2), (rephrasing_prompt question, answer_of a3)]\<rparr>"
  have g1: "gpt port (complexity_prompt question) w = (answer_of a1, ?w1)"
    using assms(1) by (rule gpt_port)
  have g2: "gpt port (compression_prompt question) ?w1 = (answer_of a2, ?w2)"
    using assms(2) gpt_port [of port "compression_prompt question" ?w1 a2 s2] by simp
  have g3: "gpt port (rephrasing_prompt question) ?w2 = (answer_of a3, ?w3)"
    using assms(3) gpt_port [of port "rephrasing_prompt question" ?w2 a3 s3] by simp
  show ?thesis
    by (simp add: apply_evolutions_def g1 g2 g3 append_if_truthy_candidate)
qed

section \<open>The critic's reading of the answer\<close>

lemma valid_examples:
  "py_upper (py_strip (lit ''valid'')) = lit ''VALID''"
  "py_upper (py_strip (lit ''Valid '')) = lit ''VALID''"
  "py_upper (py_strip (lit ''VALID'')) = lit ''VALID''"
  "py_upper (py_strip (lit ''INVALID'')) \<noteq> lit ''VALID''"
  "py_upper (py_strip []) \<noteq> lit ''VALID''"
  "py_upper (py_strip (lit ''yes'')) \<noteq> lit ''VALID''"
  "py_upper (py_strip (lit ''VALID'' @ [160])) = lit ''VALID''"
  "py_upper (py_strip (133 # lit ''valid'')) = lit ''VALID''"
  by (simp_all add: lit_def py_upper_def py_strip_def py_isspace_def upper_char_def)

lemma upper_char_space: "py_isspace c \<Longrightarrow> upper_char c = [c]"
  by (auto simp: py_isspace_def upper_char_def)

lemma valid_head_not_space: "\<not> py_isspace 86"
  by (simp add: py_isspace_def)

lemma valid_last_not_space: "\<not> py_isspace 68"
  by (simp add: py_isspace_def)

lemma py_strip_decompose:
  "\<exists>pre post. r = pre @ py_strip r @ post \<and> list_all py_isspace pre \<and> list_all py_isspace post"
proof -
  define d where "d = dropWhile py_isspace r"
  have 1: "r = takeWhile py_isspace r @ d"
    by (simp add: d_def)
  have e: "takeWhile py_isspace (rev d) @ dropWhile py_isspace (rev d) = rev d"
    by (rule takeWhile_dropWhile_id)
  have "rev (takeWhile py_isspace (rev d) @ dropWhile py_isspace (rev d)) = d"
    by (simp only: e rev_rev_ident)
  then have "rev (dropWhile py_isspace (rev d)) @ rev (takeWhile py_isspace (rev d)) = d"
    by (simp only: rev_append)
  then have 2: "d = py_strip r @ rev (takeWhile py_isspace (rev d))"
    by (simp only: py_strip_def d_def)
  have 3: "list_all py_isspace (takeWhile py_isspace r)"
    by (auto simp: list_all_iff dest: set_takeWhileD)
  have 4: "list_all py_isspace (rev (takeWhile py_isspace (rev d)))"
    by (auto simp: list_all_iff dest: set_takeWhileD)
  from 1 2 have "r = takeWhile py_isspace r @ py_strip r @ rev (takeWhile py_isspace (rev d))"
    by simp
  with 3 4 show ?thesis by blast
qed

lemma py_strip_core:
  assumes "list_all py_isspace pre" "list_all py_isspace post"
    and "v \<noteq> []" "\<not> py_isspace (hd v)" "\<not> py_isspace (last v)"
  shows "py_strip (pre @ v @ post) = v"
proof -
  from assms(3,4) have a: "dropWhile py_isspace (pre @ v @ post) = v @ post"
    using assms(1) by (cases v) (simp_all add: dropWhile_append list_all_iff)
  from assms(3,5) have "\<not> py_isspace (hd (rev v))" "rev v \<noteq> []"
    by (simp_all add: hd_rev)
  then have b: "dropWhile py_isspace (rev post @ rev v) = rev v"
    using assms(2) by (cases "rev v") (simp_all add: dropWhile_append list_all_iff)
  show ?thesis
    by (simp add: py_strip_def a b)
qed

lemma valid_answer_intro:
  assumes r: "r = pre @ v @ post" and p: "list_all py_isspace pre" "list_all py_isspace post"
    and v: "py_upper v = lit ''VALID''"
  shows "py_upper (py_strip r) = lit ''VALID''"
proof -
  have V: "lit ''VALID'' = [86, 65, 76, 73, 68]"
    by (simp add: lit_def)
  from v V have ne: "v \<noteq> []"
    by (cases v) (simp_all add: py_upper_def)
  have h: "\<not> py_isspace (hd v)"
  proof
    assume s: "py_isspace (hd v)"
    from ne obtain c v' where c: "v = c # v'" by (cases v) auto
    with s have "upper_char c = [c]" by (simp add: upper_char_space)
    with v V c have "c = 86" by (simp add: py_upper_def)
    with s c valid_head_not_space show False by simp
  qed
  have l: "\<not> py_isspace (last v)"
  proof
    assume s: "py_isspace (last v)"
    from ne have c: "v = butlast v @ [last v]" by simp
    from s have u: "upper_char (last v) = [last v]" by (rule upper_char_space)
    have "py_upper v = py_upper (butlast v) @ upper_char (last v)"
      by (subst c) (simp add: py_upper_def)
    with u v V have "py_upper (butlast v) @ [last v] = [86, 65, 76, 73] @ [68]" by simp
    then have "last v = 68" by (simp only: append1_eq_conv)
    with s valid_last_not_space show False by simp
  qed
  from py_strip_core [OF p ne h l] r v show ?thesis
    by simp
qed

lemma valid_answer_shape:
  "(py_upper (py_strip r) = lit ''VALID'') \<longleftrightarrow>
     (\<exists>pre v post. r = pre @ v @ post \<and> list_all py_isspace pre \<and> list_all py_isspace post
        \<and> py_upper v = lit ''VALID'')"
proof
  assume m: "py_upper (py_strip r) = lit ''VALID''"
  from py_strip_decompose [of r] obtain pre post
    where d: "r = pre @ py_strip r @ post" "list_all py_isspace pre" "list_all py_isspace post"
    by (elim exE conjE)
  show "\<exists>pre v post. r = pre @ v @ post \<and> list_all py_isspace pre
      \<and> list_all py_isspace post \<and> py_upper v = lit ''VALID''"
    using d m by (intro exI [of _ pre] exI [of _ "py_strip r"] exI [of _ post] conjI)
next
  assume "\<exists>pre v post. r = pre @ v @ post \<and> list_all py_isspace pre \<and> list_all py_isspace post
        \<and> py_upper v = lit ''VALID''"
  then show "py_upper (py_strip r) = lit ''VALID''"
    by (elim exE conjE) (rule valid_answer_intro)
qed

text \<open>
  C1, as amended. For every baseline question, every candidate and every answer of the
  port that is a string, the critic returns true exactly when the answer, stripped and
  put in upper case, equals \<open>VALID\<close>, that is, when the answer is, between whitespace,
  a string whose upper case is \<open>VALID\<close>. So \<open>valid\<close> and \<open>Valid \<close> are accepted, as
  are \<open>VALID\<close> followed by a no-break space and \<open>valid\<close> after a next-line character,
  and \<open>INVALID\<close>, the empty string and \<open>yes\<close> are rejected (see the witness).
\<close>

theorem critic_string_response:
  assumes "port (critic_prompt original_question evolved_question) (pstate w) = (Content (Some r), s)"
  shows "critic port original_question evolved_question w =
     (Inr (py_upper (py_strip r) = lit ''VALID''),
      \<lparr>pstate = s, calls = calls w @ [(critic_prompt original_question evolved_question, Some r)]\<rparr>)
   \<and> ((py_upper (py_strip r) = lit ''VALID'') \<longleftrightarrow>
        (\<exists>pre v post. r = pre @ v @ post \<and> list_all py_isspace pre \<and> list_all py_isspace post
           \<and> py_upper v = lit ''VALID''))"
proof
  show "critic port original_question evolved_question w =
     (Inr (py_upper (py_strip r) = lit ''VALID''),
      \<lparr>pstate = s, calls = calls w @ [(critic_prompt original_question evolved_question, Some r)]\<rparr>)"
    using assms by (simp add: critic_def gpt_content)
  show "(py_upper (py_strip r) = lit ''VALID'') \<longleftrightarrow>
        (\<exists>pre v post. r = pre @ v @ post \<and> list_all py_isspace pre \<and> list_all py_isspace post
           \<and> py_upper v = lit ''VALID'')"
    by (rule valid_answer_shape)
qed

theorem critic_string_response_witness:
  "constant_port (lit ''Valid '') (critic_prompt (lit ''Q?'') (lit ''E?'')) (pstate (initial_world ()))
     = (Content (Some (lit ''Valid '')), ())
   \<and> fst (critic (constant_port (lit ''Valid '')) (lit ''Q?'') (lit ''E?'') (initial_world ())) = Inr True
   \<and> fst (critic (constant_port (lit ''VALID'')) (lit ''Q?'') (lit ''E?'') (initial_world ())) = Inr True
   \<and> fst (critic (constant_port (lit ''VALID'' @ [160])) (lit ''Q?'') (lit ''E?'') (initial_world ())) = Inr True
   \<and> fst (critic (constant_port (133 # lit ''valid'')) (lit ''Q?'') (lit ''E?'') (initial_world ())) = Inr True
   \<and> fst (critic (constant_port (lit ''INVALID'')) (lit ''Q?'') (lit ''E?'') (initial_world ())) = Inr False
   \<and> fst (critic (constant_port []) (lit ''Q?'') (lit ''E?'') (initial_world ())) = Inr False
   \<and> fst (critic (constant_port (lit ''yes'')) (lit ''Q?'') (lit ''E?'') (initial_world ())) = Inr False"
proof -
  have h: "constant_port r (critic_prompt (lit ''Q?'') (lit ''E?'')) (pstate (initial_world ())) = (Content (Some r), ())" for r
    by (simp add: constant_port_def)
  have t: "fst (critic (constant_port r) (lit ''Q?'') (lit ''E?'') (initial_world ())) = Inr (py_upper (py_strip r) = lit ''VALID'')" for r
    using conjunct1 [OF critic_string_response [of "constant_port r" "lit ''Q?''" "lit ''E?''" "initial_world ()" r "()"]]
      h [of r]
    by simp
  show ?thesis
    using h [of "lit ''Valid ''"] t [of "lit ''Valid ''"] t [of "lit ''VALID''"]
      t [of "lit ''VALID'' @ [160]"] t [of "133 # lit ''valid''"]
      t [of "lit ''INVALID''"] t [of "[]"] t [of "lit ''yes''"]
    by (simp add: valid_examples)
qed

text \<open>
  C1, as written, also lists \<open>valid\<close> among the rejected answers; the critic accepts it.
\<close>

theorem critic_accepts_lowercase_valid:
  "fst (critic (constant_port (lit ''valid'')) (lit ''Q?'') (lit ''E?'') (initial_world ())) = Inr True"
  by (simp add: critic_def gpt_def constant_port_def valid_examples Let_def)

section \<open>A failed call of the port in each stage\<close>

text \<open>
  C2. When every call of the port fails, the question stage and the evolution stage return
  empty lists, but the critic raises \<open>AttributeError\<close> (it strips \<open>None\<close>), and
  \<open>validate_evolved_questions\<close> passes the exception on to its caller.
\<close>

theorem generation_failure_in_critic:
  "fst (generate_simple_questions failing_port [lit ''Alpha beta''] (initial_world ())) = []
   \<and> fst (apply_evolutions failing_port (lit ''Q?'') (initial_world ())) = []
   \<and> fst (critic failing_port (lit ''Q?'') (lit ''E?'') (initial_world ())) = Inl AttributeError
   \<and> fst (validate_evolved_questions failing_port [(lit ''Q?'', [lit ''E?''])] (initial_world ())) = Inl AttributeError"
  by (simp add: generate_simple_questions_def apply_evolutions_def critic_def
      validate_evolved_questions_def gpt_failing append_if_truthy_def)

section \<open>The three evolutions of a question\<close>

text \<open>
  C6. For every baseline question, \<open>apply_evolutions\<close> calls the port exactly three times,
  with the complexity, compression and rephrasing prompts in that order, each call in the
  state the port was left in by the call before, whatever the answers are. Its result is
  made, in the order of the calls, of what each call gives by itself: the stripped answer
  when the answer is a non-empty string, and nothing when the call failed or gave
  \<open>None\<close> or the empty string. So there are at most three candidates, and a failed call
  neither stops the later calls nor removes their candidates.
\<close>

theorem apply_evolutions_three_calls:
  assumes "port (complexity_prompt question) (pstate w) = (a1, s1)"
    and "port (compression_prompt question) s1 = (a2, s2)"
    and "port (rephrasing_prompt question) s2 = (a3, s3)"
  shows "apply_evolutions port question w =
      (candidate_of a1 @ candidate_of a2 @ candidate_of a3,
       \<lparr>pstate = s3,
        calls = calls w @ [(complexity_prompt question, answer_of a1),
                           (compression_prompt question, answer_of a2),
                           (rephrasing_prompt question, answer_of a3)]\<rparr>)
     \<and> length (fst (apply_evolutions port question w)) \<le> 3"
proof -
  note a = apply_evolutions_port [OF assms]
  have "length (candidate_of a1 @ candidate_of a2 @ candidate_of a3) \<le> 3"
    using candidate_of_length [of a1] candidate_of_length [of a2] candidate_of_length [of a3]
    by simp
  with a show ?thesis by simp
qed

theorem apply_evolutions_three_calls_witness:
  "numbered_port 0 1 (complexity_prompt (lit ''Q?'')) (pstate (initial_world 0)) = (ApiError, 1)
   \<and> numbered_port 0 1 (compression_prompt (lit ''Q?'')) 1 = (Content (Some (lit '' 1 '')), 2)
   \<and> numbered_port 0 1 (rephrasing_prompt (lit ''Q?'')) 2 = (Content (Some (lit '' 2 '')), 3)
   \<and> apply_evolutions (numbered_port 0 1) (lit ''Q?'') (initial_world 0) =
       ([lit ''1'', lit ''2''],
        \<lparr>pstate = 3,
         calls = [(complexity_prompt (lit ''Q?''), None),
                  (compression_prompt (lit ''Q?''), Some (lit '' 1 '')),
                  (rephrasing_prompt (lit ''Q?''), Some (lit '' 2 ''))]\<rparr>)"
proof -
  have 1: "numbered_port 0 1 (complexity_prompt (lit ''Q?'')) (pstate (initial_world 0)) = (ApiError, 1)"
    by (simp add: numbered_port_def initial_world_def)
  have 2: "numbered_port 0 1 (compression_prompt (lit ''Q?'')) 1 = (Content (Some (lit '' 1 '')), 2)"
    by (simp add: numbered_port_def lit_def)
  have 3: "numbered_port 0 1 (rephrasing_prompt (lit ''Q?'')) 2 = (Content (Some (lit '' 2 '')), 3)"
    by (simp add: numbered_port_def lit_def)
  have c: "candidate_of ApiError = []" "candidate_of (Content (Some (lit '' 1 ''))) = [lit ''1'']"
    "candidate_of (Content (Some (lit '' 2 ''))) = [lit ''2'']"
    by (simp_all add: candidate_of_def lit_def py_strip_def py_isspace_def)
  have a: "answer_of ApiError = None" "answer_of (Content (Some x)) = Some x" for x :: pystr
    by (simp_all add: answer_of_def)
  from apply_evolutions_three_calls [OF 1 2 3] 1 2 3 show ?thesis
    by (simp add: c a initial_world_def)
qed

section \<open>One pair for each baseline question\<close>

lemma evolved_questions_loop_acc:
  "evolved_questions_loop port questions acc w =
     (acc @ fst (evolved_questions_loop port questions [] w),
      snd (evolved_questions_loop port questions [] w))"
proof (induction questions arbitrary: acc w)
  case Nil
  then show ?case by simp
next
  case (Cons q qs)
  obtain evs w' where a: "apply_evolutions port q w = (evs, w')"
    by (cases "apply_evolutions port q w")
  have 1: "evolved_questions_loop port (q # qs) acc w
      = ((acc @ [(q, evs)]) @ fst (evolved_questions_loop port qs [] w'),
         snd (evolved_questions_loop port qs [] w'))"
    using Cons.IH [of "acc @ [(q, evs)]" w'] by (simp add: a)
  have 2: "evolved_questions_loop port (q # qs) [] w
      = ([(q, evs)] @ fst (evolved_questions_loop port qs [] w'),
         snd (evolved_questions_loop port qs [] w'))"
    using Cons.IH [of "[(q, evs)]" w'] by (simp add: a)
  from 1 2 show ?case by simp
qed

lemma evolved_questions_loop_append:
  "evolved_questions_loop port (xs @ ys) acc w =
     (case evolved_questions_loop port xs acc w of (a, w1) \<Rightarrow> evolved_questions_loop port ys a w1)"
  by (induction xs arbitrary: acc w) (simp_all split: prod.splits)

lemma evolved_questions_loop_fst:
  "map fst (fst (evolved_questions_loop port questions acc w)) = map fst acc @ questions"
  by (induction questions arbitrary: acc w) (simp_all split: prod.splits)

lemma generate_evolved_questions_at:
  assumes "generate_evolved_questions port before w = (pairs, w1)"
  shows "fst (generate_evolved_questions port (before @ question # rest) w)
     = pairs @ [(question, fst (apply_evolutions port question w1))]
         @ fst (generate_evolved_questions port rest (snd (apply_evolutions port question w1)))"
proof -
  obtain evs w2 where a: "apply_evolutions port question w1 = (evs, w2)"
    by (cases "apply_evolutions port question w1")
  have "generate_evolved_questions port (before @ question # rest) w
      = evolved_questions_loop port (question # rest) pairs w1"
    using assms by (simp add: generate_evolved_questions_def evolved_questions_loop_append)
  also have "\<dots> = evolved_questions_loop port rest (pairs @ [(question, evs)]) w2"
    by (simp add: a)
  also have "\<dots> = ((pairs @ [(question, evs)]) @ fst (evolved_questions_loop port rest [] w2),
      snd (evolved_questions_loop port rest [] w2))"
    by (rule evolved_questions_loop_acc)
  finally show ?thesis
    by (simp add: a generate_evolved_questions_def)
qed

text \<open>
  C8. For every list of baseline questions, \<open>generate_evolved_questions\<close> returns one pair
  for each question, in the order of the input, whose first component is that question.
  The second component of a question's pair is made of what its own three calls give, in
  the state the port is in after the questions before it. In particular a question whose
  three calls all fail is still there, paired with the empty list, whatever the calls of
  the other questions give.
\<close>

theorem generate_evolved_questions_pairs:
  assumes "generate_evolved_questions port before w = (pairs, w1)"
    and "port (complexity_prompt question) (pstate w1) = (a1, s1)"
    and "port (compression_prompt question) s1 = (a2, s2)"
    and "port (rephrasing_prompt question) s2 = (a3, s3)"
    and "w2 = \<lparr>pstate = s3,
               calls = calls w1 @ [(complexity_prompt question, answer_of a1),
                                   (compression_prompt question, answer_of a2),
                                   (rephrasing_prompt question, answer_of a3)]\<rparr>"
  shows "map fst (fst (generate_evolved_questions port (before @ question # rest) w))
       = before @ question # rest
     \<and> length (fst (generate_evolved_questions port (before @ question # rest) w))
       = length (before @ question # rest)
     \<and> fst (generate_evolved_questions port (before @ question # rest) w)
       = pairs @ [(question, candidate_of a1 @ candidate_of a2 @ candidate_of a3)]
           @ fst (generate_evolved_questions port rest w2)
     \<and> (answer_of a1 = None \<and> answer_of a2 = None \<and> answer_of a3 = None \<longrightarrow>
          fst (generate_evolved_questions port (before @ question # rest) w)
            = pairs @ [(question, [])] @ fst (generate_evolved_questions port rest w2))"
proof -
  have m: "map fst (fst (generate_evolved_questions port (before @ question # rest) w))
       = before @ question # rest"
    by (simp add: generate_evolved_questions_def evolved_questions_loop_fst)
  from m have "length (map fst (fst (generate_evolved_questions port (before @ question # rest) w)))
       = length (before @ question # rest)"
    by (simp only:)
  then have l: "length (fst (generate_evolved_questions port (before @ question # rest) w))
       = length (before @ question # rest)"
    by (simp only: length_map)
  have e: "fst (apply_evolutions port question w1) = candidate_of a1 @ candidate_of a2 @ candidate_of a3"
    "snd (apply_evolutions port question w1) = w2"
    using apply_evolutions_port [OF assms(2,3,4)] assms(5) by simp_all
  have p: "fst (generate_evolved_questions port (before @ question # rest) w)
       = pairs @ [(question, candidate_of a1 @ candidate_of a2 @ candidate_of a3)]
           @ fst (generate_evolved_questions port rest w2)"
    using generate_evolved_questions_at [OF assms(1), of question rest] by (simp only: e)
  have f: "answer_of a1 = None \<and> answer_of a2 = None \<and> answer_of a3 = None \<longrightarrow>
          fst (generate_evolved_questions port (before @ question # rest) w)
            = pairs @ [(question, [])] @ fst (generate_evolved_questions port rest w2)"
    using p by (simp add: candidate_of_None)
  from m l p f show ?thesis by (intro conjI)
qed

theorem generate_evolved_questions_pairs_witness:
  "generate_evolved_questions (numbered_port 3 6) [lit ''Q1?''] (initial_world 0)
     = ([(lit ''Q1?'', [lit ''0'', lit ''1'', lit ''2''])],
        \<lparr>pstate = 3,
         calls = [(complexity_prompt (lit ''Q1?''), Some (lit '' 0 '')),
                  (compression_prompt (lit ''Q1?''), Some (lit '' 1 '')),
                  (rephrasing_prompt (lit ''Q1?''), Some (lit '' 2 ''))]\<rparr>)
   \<and> numbered_port 3 6 (complexity_prompt (lit ''Q2?'')) 3 = (ApiError, 4)
   \<and> numbered_port 3 6 (compression_prompt (lit ''Q2?'')) 4 = (ApiError, 5)
   \<and> numbered_port 3 6 (rephrasing_prompt (lit ''Q2?'')) 5 = (ApiError, 6)
   \<and> answer_of ApiError = None
   \<and> fst (generate_evolved_questions (numbered_port 3 6) [lit ''Q1?'', lit ''Q2?'', lit ''Q3?'']
         (initial_world 0))
       = [(lit ''Q1?'', [lit ''0'', lit ''1'', lit ''2'']), (lit ''Q2?'', []),
          (lit ''Q3?'', [lit ''6'', lit ''7'', lit ''8''])]"
proof -
  let ?port = "numbered_port 3 6 :: nat port"
  let ?log1 = "[(complexity_prompt (lit ''Q1?''), Some (lit '' 0 '')),
                (compression_prompt (lit ''Q1?''), Some (lit '' 1 '')),
                (rephrasing_prompt (lit ''Q1?''), Some (lit '' 2 ''))]"
  let ?w1 = "\<lparr>pstate = 3 :: nat, calls = ?log1\<rparr>"
  let ?w2 = "\<lparr>pstate = 6 :: nat,
             calls = calls ?w1 @ [(complexity_prompt (lit ''Q2?''), answer_of ApiError),
                                  (compression_prompt (lit ''Q2?''), answer_of ApiError),
                                  (rephrasing_prompt (lit ''Q2?''), answer_of ApiError)]\<rparr>"
  have h1: "generate_evolved_questions ?port [lit ''Q1?''] (initial_world 0)
     = ([(lit ''Q1?'', [lit ''0'', lit ''1'', lit ''2''])], ?w1)"
    by (simp add: generate_evolved_questions_def apply_evolutions_def gpt_def numbered_port_def
        initial_world_def append_if_truthy_def py_strip_def py_isspace_def Let_def lit_def)
  have h2: "?port (complexity_prompt (lit ''Q2?'')) (pstate ?w1) = (ApiError, 4)"
    by (simp add: numbered_port_def)
  have h3: "?port (compression_prompt (lit ''Q2?'')) 4 = (ApiError, 5)"
    by (simp add: numbered_port_def)
  have h4: "?port (rephrasing_prompt (lit ''Q2?'')) 5 = (ApiError, 6)"
    by (simp add: numbered_port_def)
  have h5: "?w2 = ?w2"
    by (rule refl)
  have n: "answer_of ApiError = None"
    by (simp add: answer_of_def)
  have r: "fst (generate_evolved_questions ?port [lit ''Q3?''] ?w2)
      = [(lit ''Q3?'', [lit ''6'', lit ''7'', lit ''8''])]"
    by (simp add: generate_evolved_questions_def apply_evolutions_def gpt_def numbered_port_def
        append_if_truthy_def py_strip_def py_isspace_def Let_def lit_def)
  from generate_evolved_questions_pairs [OF h1 h2 h3 h4 h5, of "[lit ''Q3?'']"] n
  have "fst (generate_evolved_questions ?port ([lit ''Q1?''] @ lit ''Q2?'' # [lit ''Q3?'']) (initial_world 0))
      = [(lit ''Q1?'', [lit ''0'', lit ''1'', lit ''2''])] @ [(lit ''Q2?'', [])]
          @ fst (generate_evolved_questions ?port [lit ''Q3?''] ?w2)"
    by blast
  then have "fst (generate_evolved_questions ?port [lit ''Q1?'', lit ''Q2?'', lit ''Q3?''] (initial_world 0))
      = [(lit ''Q1?'', [lit ''0'', lit ''1'', lit ''2'']), (lit ''Q2?'', []),
         (lit ''Q3?'', [lit ''6'', lit ''7'', lit ''8''])]"
    by (simp only: r append_Cons append_Nil)
  with h1 h2 h3 h4 n show ?thesis
    by simp
qed

section \<open>A whitespace answer to the question prompt\<close>

lemma py_strip_whitespace:
  "\<forall>c \<in> set r. py_isspace c \<Longrightarrow> py_strip r = []"
proof -
  assume "\<forall>c \<in> set r. py_isspace c"
  then have "dropWhile py_isspace r = []" by (simp only: dropWhile_eq_Nil_conv)
  then show ?thesis by (simp only: py_strip_def rev.simps dropWhile.simps)
qed

lemma simple_questions_loop_acc:
  "simple_questions_loop port chunks acc w =
     (acc @ fst (simple_questions_loop port chunks [] w), snd (simple_questions_loop port chunks [] w))"
proof (induction chunks arbitrary: acc w)
  case Nil
  then show ?case by simp
next
  case (Cons chunk chunks)
  obtain r w' where g: "gpt port (simple_prompt chunk) w = (r, w')"
    by (cases "gpt port (simple_prompt chunk) w")
  have "simple_questions_loop port (chunk # chunks) acc w
      = simple_questions_loop port chunks (append_if_truthy acc r) w'"
    by (simp add: g)
  also have "\<dots> = (append_if_truthy acc r @ fst (simple_questions_loop port chunks [] w'),
      snd (simple_questions_loop port chunks [] w'))"
    by (rule Cons.IH)
  also have "append_if_truthy acc r = acc @ append_if_truthy [] r"
    by (rule append_if_truthy_acc)
  finally have l: "simple_questions_loop port (chunk # chunks) acc w
      = (acc @ append_if_truthy [] r @ fst (simple_questions_loop port chunks [] w'),
         snd (simple_questions_loop port chunks [] w'))"
    by simp
  have "simple_questions_loop port (chunk # chunks) [] w
      = simple_questions_loop port chunks (append_if_truthy [] r) w'"
    by (simp add: g)
  also have "\<dots> = (append_if_truthy [] r @ fst (simple_questions_loop port chunks [] w'),
      snd (simple_questions_loop port chunks [] w'))"
    by (rule Cons.IH)
  finally show ?case using l by simp
qed

lemma simple_questions_loop_append:
  "simple_questions_loop port (xs @ ys) acc w =
     (case simple_questions_loop port xs acc w of (a, w1) \<Rightarrow> simple_questions_loop port ys a w1)"
  by (induction xs arbitrary: acc w) (simp_all split: prod.splits)

text \<open>
  C9. If the port answers the prompt of a segment with a non-empty string of whitespace
  only, \<open>generate_simple_questions\<close> does not drop the segment: it appends the empty string
  as its baseline question, after the questions of the segments before it and before
  those of the segments after it. The test \<open>if question\<close> sees the answer before it is
  stripped.
\<close>

theorem whitespace_answer_gives_empty_question:
  assumes "generate_simple_questions port before w = (questions, w1)"
    and "port (simple_prompt chunk) (pstate w1) = (Content (Some r), s)"
    and "r \<noteq> []"
    and "\<forall>c \<in> set r. py_isspace c"
  shows "fst (generate_simple_questions port (before @ chunk # rest) w)
     = questions @ [[]] @ fst (generate_simple_questions port rest (snd (gpt port (simple_prompt chunk) w1)))"
proof -
  have g: "gpt port (simple_prompt chunk) w1
      = (Some r, \<lparr>pstate = s, calls = calls w1 @ [(simple_prompt chunk, Some r)]\<rparr>)"
    using assms(2) by (rule gpt_content)
  have t: "append_if_truthy questions (Some r) = questions @ [[]]"
    using assms(3,4) by (simp add: append_if_truthy_def py_strip_whitespace)
  have "generate_simple_questions port (before @ chunk # rest) w
      = simple_questions_loop port (chunk # rest) questions w1"
    using assms(1) by (simp add: generate_simple_questions_def simple_questions_loop_append)
  also have "\<dots> = simple_questions_loop port rest (questions @ [[]]) (snd (gpt port (simple_prompt chunk) w1))"
    by (simp add: g t)
  finally show ?thesis
    by (subst (asm) simple_questions_loop_acc) (simp add: generate_simple_questions_def)
qed

theorem whitespace_answer_gives_empty_question_witness:
  "generate_simple_questions (constant_port (lit ''  '')) [] (initial_world ()) = ([], initial_world ())
   \<and> constant_port (lit ''  '') (simple_prompt (lit ''Alpha beta'')) (pstate (initial_world ()))
      = (Content (Some (lit ''  '')), ())
   \<and> lit ''  '' \<noteq> []
   \<and> list_all py_isspace (lit ''  '')
   \<and> fst (generate_simple_questions (constant_port (lit ''  '')) [lit ''Alpha beta''] (initial_world ())) = [[]]
   \<and> list_all py_isspace [160, 8195]
   \<and> fst (generate_simple_questions (constant_port [160, 8195]) [lit ''Alpha beta''] (initial_world ())) = [[]]"
proof -
  have a: "generate_simple_questions (constant_port r) [] (initial_world ()) = ([], initial_world ())" for r
    by (simp add: generate_simple_questions_def)
  have b: "constant_port r (simple_prompt (lit ''Alpha beta'')) (pstate (initial_world ())) = (Content (Some r), ())" for r
    by (simp add: constant_port_def)
  have c: "lit ''  '' \<noteq> []" "[160, 8195] \<noteq> ([] :: pystr)"
    by (simp_all add: lit_def)
  have d: "\<forall>c \<in> set (lit ''  ''). py_isspace c" "\<forall>c \<in> set [160, 8195]. py_isspace c"
    by (simp_all add: lit_def py_isspace_def)
  have e: "list_all py_isspace (lit ''  '')" "list_all py_isspace [160, 8195]"
    by (simp_all add: lit_def py_isspace_def)
  from whitespace_answer_gives_empty_question [OF a b c(1) d(1), of "[]"]
  have 1: "fst (generate_simple_questions (constant_port (lit ''  '')) [lit ''Alpha beta''] (initial_world ())) = [[]]"
    by (simp add: generate_simple_questions_def)
  from whitespace_answer_gives_empty_question [OF a b c(2) d(2), of "[]"]
  have 2: "fst (generate_simple_questions (constant_port [160, 8195]) [lit ''Alpha beta''] (initial_world ())) = [[]]"
    by (simp add: generate_simple_questions_def)
  from a [of "lit ''  ''"] b [of "lit ''  ''"] c(1) e 1 2 show ?thesis
    by (intro conjI)
qed

section \<open>A chunk size that is not positive\<close>

text \<open>
  C4, as amended. For every document, the run with chunk size 0 raises \<open>ValueError\<close>
  (from \<open>range\<close>) before any call of the port: the world, and with it the log of calls,
  is unchanged. With a negative chunk size nothing is raised: the run makes no call of
  the port and returns the empty list of accepted questions.
\<close>

theorem pipeline_nonpositive_chunk_size:
  "pipeline port document 0 w = (Inl ValueError, w)
   \<and> (chunk_size < 0 \<longrightarrow> pipeline port document chunk_size w = (Inr [], w))"
proof -
  have z: "chunk_document document 0 = Inl ValueError"
    by (simp add: chunk_document_def py_range_def)
  have n: "chunk_size < 0 \<Longrightarrow> chunk_document document chunk_size = Inr []"
    by (simp add: chunk_document_def py_range_def)
  show ?thesis
    using z n
    by (simp add: pipeline_def generate_simple_questions_def generate_evolved_questions_def
        validate_evolved_questions_def)
qed

theorem pipeline_nonpositive_chunk_size_witness:
  "(-1 :: int) < 0
   \<and> pipeline (constant_port (lit ''VALID'')) (lit ''Alpha beta gamma delta'') 0 (initial_world ()) = (Inl ValueError, initial_world ())
   \<and> pipeline (constant_port (lit ''VALID'')) (lit ''Alpha beta gamma delta'') (-1) (initial_world ()) = (Inr [], initial_world ())"
  using pipeline_nonpositive_chunk_size
    [of "constant_port (lit ''VALID'')" "lit ''Alpha beta gamma delta''" "initial_world ()" "-1"]
  by simp

text \<open>
  C4, as written, has every non-positive chunk size raise an error; with chunk size
  \<open>-1\<close> the run returns the empty list and raises nothing.
\<close>

theorem pipeline_negative_chunk_size_no_error:
  "pipeline (constant_port (lit ''VALID'')) (lit ''Alpha beta gamma delta'') (-1) (initial_world ()) = (Inr [], initial_world ())"
  by (simp add: pipeline_def chunk_document_def py_range_def generate_simple_questions_def
      generate_evolved_questions_def validate_evolved_questions_def)

section \<open>The accepted questions\<close>

lemma accepted_Nil [simp]: "accepted [] answers = []"
  by (simp add: accepted_def)

lemma accepted_Cons:
  "accepted ((q, e) # cands) ((p, r) # answers) = (if verdict r then e # accepted cands answers else accepted cands answers)"
  by (simp add: accepted_def)

lemma accepted_append:
  "length xs = length as \<Longrightarrow> accepted (xs @ ys) (as @ bs) = accepted xs as @ accepted ys bs"
  by (simp add: accepted_def)

lemma critic_Inr:
  assumes "critic port q e w = (Inr b, w')"
  shows "\<exists>r. calls w' = calls w @ [(critic_prompt q e, r)] \<and> b = verdict r"
proof -
  obtain r w1 where g: "gpt port (critic_prompt q e) w = (r, w1)"
    by (cases "gpt port (critic_prompt q e) w")
  from assms g obtain s where "r = Some s" "b = (py_upper (py_strip s) = lit ''VALID'')" "w' = w1"
    by (cases r) (auto simp: critic_def)
  with gpt_result [OF g] show ?thesis
    by (auto simp: verdict_def)
qed

lemma validate_evolutions_Inr:
  "validate_evolutions port q evolutions acc w = (Inr acc', w') \<Longrightarrow>
     \<exists>answers. calls w' = calls w @ answers
        \<and> map fst answers = map (critic_prompt q) evolutions
        \<and> acc' = acc @ accepted (map (Pair q) evolutions) answers"
proof (induction evolutions arbitrary: acc w)
  case Nil
  then show ?case by simp
next
  case (Cons e es)
  obtain res w1 where c: "critic port q e w = (res, w1)"
    by (cases "critic port q e w")
  with Cons.prems obtain b where b: "res = Inr b"
    by (cases res) auto
  from c b critic_Inr obtain r where r: "calls w1 = calls w @ [(critic_prompt q e, r)]" "b = verdict r"
    by blast
  from Cons.prems c b
  have "validate_evolutions port q es (if b then acc @ [e] else acc) w1 = (Inr acc', w')"
    by simp
  from Cons.IH [OF this] obtain answers where a:
    "calls w' = calls w1 @ answers" "map fst answers = map (critic_prompt q) es"
    "acc' = (if b then acc @ [e] else acc) @ accepted (map (Pair q) es) answers"
    by blast
  let ?answers = "(critic_prompt q e, r) # answers"
  have "calls w' = calls w @ ?answers" using a(1) r(1) by simp
  moreover have "map fst ?answers = map (critic_prompt q) (e # es)" using a(2) by simp
  moreover have "acc' = acc @ accepted (map (Pair q) (e # es)) ?answers"
    using a(3) r(2) by (simp add: accepted_Cons)
  ultimately show ?case by blast
qed

lemma validate_loop_Inr:
  "validate_loop port evolved_questions acc w = (Inr acc', w') \<Longrightarrow>
     \<exists>answers. calls w' = calls w @ answers
        \<and> map fst answers = map (\<lambda>(q, e). critic_prompt q e) (candidates evolved_questions)
        \<and> acc' = acc @ accepted (candidates evolved_questions) answers"
proof (induction evolved_questions arbitrary: acc w)
  case Nil
  then show ?case by (simp add: candidates_def)
next
  case (Cons pair rest)
  obtain q evolutions where pair: "pair = (q, evolutions)" by (cases pair)
  obtain res w1 where v: "validate_evolutions port q evolutions acc w = (res, w1)"
    by (cases "validate_evolutions port q evolutions acc w")
  with Cons.prems pair obtain acc1 where res: "res = Inr acc1"
    by (cases res) auto
  from validate_evolutions_Inr [OF v [unfolded res]] obtain answers1 where a1:
    "calls w1 = calls w @ answers1" "map fst answers1 = map (critic_prompt q) evolutions"
    "acc1 = acc @ accepted (map (Pair q) evolutions) answers1"
    by blast
  from Cons.prems pair v res have "validate_loop port rest acc1 w1 = (Inr acc', w')"
    by simp
  from Cons.IH [OF this] obtain answers2 where a2:
    "calls w' = calls w1 @ answers2"
    "map fst answers2 = map (\<lambda>(q, e). critic_prompt q e) (candidates rest)"
    "acc' = acc1 @ accepted (candidates rest) answers2"
    by blast
  have len: "length (map (Pair q) evolutions) = length answers1"
    using a1(2) by (metis length_map)
  have cand: "candidates (pair # rest) = map (Pair q) evolutions @ candidates rest"
    by (simp add: candidates_def pair)
  have "calls w' = calls w @ (answers1 @ answers2)" using a1(1) a2(1) by simp
  moreover have "map fst (answers1 @ answers2) = map (\<lambda>(q, e). critic_prompt q e) (candidates (pair # rest))"
    using a1(2) a2(2) by (simp add: cand comp_def)
  moreover have "acc' = acc @ accepted (candidates (pair # rest)) (answers1 @ answers2)"
    using a1(3) a2(3) len by (simp add: cand accepted_append)
  ultimately show ?case by blast
qed

lemma critic_total:
  assumes "answers_with_text port"
  shows "\<exists>b w'. critic port q e w = (Inr b, w')"
proof -
  from assms obtain r s' where "port (critic_prompt q e) (pstate w) = (Content (Some r), s')"
    unfolding answers_with_text_def by blast
  then show ?thesis by (simp add: critic_def gpt_content)
qed

lemma validate_evolutions_total:
  "answers_with_text port \<Longrightarrow> \<exists>acc' w'. validate_evolutions port q evolutions acc w = (Inr acc', w')"
proof (induction evolutions arbitrary: acc w)
  case Nil
  then show ?case by simp
next
  case (Cons e es)
  from critic_total [OF Cons.prems] obtain b w1 where c: "critic port q e w = (Inr b, w1)"
    by blast
  from Cons.IH [OF Cons.prems] obtain acc' w'
    where "validate_evolutions port q es (if b then acc @ [e] else acc) w1 = (Inr acc', w')"
    by blast
  with c show ?case by simp
qed

lemma validate_loop_total:
  "answers_with_text port \<Longrightarrow> \<exists>acc' w'. validate_loop port evolved_questions acc w = (Inr acc', w')"
proof (induction evolved_questions arbitrary: acc w)
  case Nil
  then show ?case by simp
next
  case (Cons pair rest)
  obtain q evolutions where pair: "pair = (q, evolutions)" by (cases pair)
  from validate_evolutions_total [OF Cons.prems] obtain acc1 w1
    where v: "validate_evolutions port q evolutions acc w = (Inr acc1, w1)"
    by blast
  from Cons.IH [OF Cons.prems] obtain acc' w'
    where "validate_loop port rest acc1 w1 = (Inr acc', w')"
    by blast
  with v pair show ?case by simp
qed

text \<open>
  C7. In every run of \<open>validate_evolved_questions\<close> that returns, the port has been called
  once for each candidate, baseline by baseline and within a baseline in the order of its
  evolutions, and the list returned is made of the candidates whose logged answer has a
  true verdict, in that same order: each entry comes from one candidate and one logged
  verdict, and no candidate with a true verdict is left out. A run returns whenever the
  port answers every prompt with a string.
\<close>

theorem accepted_set_is_flattened_valid_candidates:
  "(validate_evolved_questions port evolved_questions w = (Inr valid_evolved_questions, w') \<longrightarrow>
      (\<exists>answers. calls w' = calls w @ answers
        \<and> map fst answers = map (\<lambda>(q, e). critic_prompt q e) (candidates evolved_questions)
        \<and> valid_evolved_questions = accepted (candidates evolved_questions) answers))
   \<and> (answers_with_text port \<longrightarrow>
        (\<exists>valid w'. validate_evolved_questions port evolved_questions w = (Inr valid, w')))"
proof (intro conjI impI)
  assume "validate_evolved_questions port evolved_questions w = (Inr valid_evolved_questions, w')"
  then show "\<exists>answers. calls w' = calls w @ answers
        \<and> map fst answers = map (\<lambda>(q, e). critic_prompt q e) (candidates evolved_questions)
        \<and> valid_evolved_questions = accepted (candidates evolved_questions) answers"
    using validate_loop_Inr [of port evolved_questions "[]" w valid_evolved_questions w']
    by (simp add: validate_evolved_questions_def)
next
  assume "answers_with_text port"
  then show "\<exists>valid w'. validate_evolved_questions port evolved_questions w = (Inr valid, w')"
    unfolding validate_evolved_questions_def by (rule validate_loop_total)
qed

lemma alternating_run:
  "validate_evolved_questions alternating_port [(lit ''Q1?'', [lit ''C1?'', lit ''Co1?'']), (lit ''Q2?'', [lit ''C2?'', lit ''Co2?''])] (initial_world False)
     = (Inr [lit ''Co1?'', lit ''Co2?''],
        \<lparr>pstate = False,
         calls = [(critic_prompt (lit ''Q1?'') (lit ''C1?''), Some (lit ''INVALID'')), (critic_prompt (lit ''Q1?'') (lit ''Co1?''), Some (lit ''VALID'')),
                  (critic_prompt (lit ''Q2?'') (lit ''C2?''), Some (lit ''INVALID'')), (critic_prompt (lit ''Q2?'') (lit ''Co2?''), Some (lit ''VALID''))]\<rparr>)"
  by (simp add: validate_evolved_questions_def critic_def gpt_def alternating_port_def initial_world_def
      Let_def lit_def py_upper_def py_strip_def py_isspace_def upper_char_def)

theorem accepted_set_is_flattened_valid_candidates_witness:
  "validate_evolved_questions alternating_port
       [(lit ''Q1?'', [lit ''C1?'', lit ''Co1?'']), (lit ''Q2?'', [lit ''C2?'', lit ''Co2?''])] (initial_world False)
     = (Inr [lit ''Co1?'', lit ''Co2?''],
        \<lparr>pstate = False,
         calls = [(critic_prompt (lit ''Q1?'') (lit ''C1?''), Some (lit ''INVALID'')), (critic_prompt (lit ''Q1?'') (lit ''Co1?''), Some (lit ''VALID'')),
                  (critic_prompt (lit ''Q2?'') (lit ''C2?''), Some (lit ''INVALID'')), (critic_prompt (lit ''Q2?'') (lit ''Co2?''), Some (lit ''VALID''))]\<rparr>)
   \<and> answers_with_text alternating_port
   \<and> [lit ''Co1?'', lit ''Co2?''] = accepted (candidates [(lit ''Q1?'', [lit ''C1?'', lit ''Co1?'']), (lit ''Q2?'', [lit ''C2?'', lit ''Co2?''])])
         [(critic_prompt (lit ''Q1?'') (lit ''C1?''), Some (lit ''INVALID'')), (critic_prompt (lit ''Q1?'') (lit ''Co1?''), Some (lit ''VALID'')),
          (critic_prompt (lit ''Q2?'') (lit ''C2?''), Some (lit ''INVALID'')), (critic_prompt (lit ''Q2?'') (lit ''Co2?''), Some (lit ''VALID''))]"
proof -
  let ?pairs = "[(lit ''Q1?'', [lit ''C1?'', lit ''Co1?'']), (lit ''Q2?'', [lit ''C2?'', lit ''Co2?''])]"
  let ?log = "[(critic_prompt (lit ''Q1?'') (lit ''C1?''), Some (lit ''INVALID'')), (critic_prompt (lit ''Q1?'') (lit ''Co1?''), Some (lit ''VALID'')),
               (critic_prompt (lit ''Q2?'') (lit ''C2?''), Some (lit ''INVALID'')), (critic_prompt (lit ''Q2?'') (lit ''Co2?''), Some (lit ''VALID''))]"
  let ?w' = "\<lparr>pstate = False, calls = ?log\<rparr>"
  have run: "validate_evolved_questions alternating_port ?pairs (initial_world False) = (Inr [lit ''Co1?'', lit ''Co2?''], ?w')"
    by (rule alternating_run)
  have total: "answers_with_text alternating_port"
    by (simp add: answers_with_text_def alternating_port_def)
  from accepted_set_is_flattened_valid_candidates
    [of alternating_port ?pairs "initial_world False" "[lit ''Co1?'', lit ''Co2?'']" ?w'] run
  obtain answers where "calls ?w' = calls (initial_world False) @ answers"
    and "[lit ''Co1?'', lit ''Co2?''] = accepted (candidates ?pairs) answers"
    by blast
  then have "[lit ''Co1?'', lit ''Co2?''] = accepted (candidates ?pairs) ?log"
    by (simp add: initial_world_def)
  with run total show ?thesis by blast
qed

section \<open>The end-to-end scenario\<close>

lemma fixture_values:
  "fixture_port (simple_prompt (lit ''Alpha beta'')) s = (Content (Some (lit ''Q1?'')), s)"
  "fixture_port (simple_prompt (lit ''gamma delta'')) s = (Content (Some (lit ''Q2?'')), s)"
  "fixture_port (complexity_prompt (lit ''Q1?'')) s = (Content (Some (lit ''C1?'')), s)"
  "fixture_port (compression_prompt (lit ''Q1?'')) s = (Content (Some (lit ''Co1?'')), s)"
  "fixture_port (rephrasing_prompt (lit ''Q1?'')) s = (Content (Some (lit ''R1?'')), s)"
  "fixture_port (complexity_prompt (lit ''Q2?'')) s = (Content (Some (lit ''C2?'')), s)"
  "fixture_port (compression_prompt (lit ''Q2?'')) s = (Content (Some (lit ''Co2?'')), s)"
  "fixture_port (rephrasing_prompt (lit ''Q2?'')) s = (Content (Some (lit ''R2?'')), s)"
  "fixture_port (critic_prompt (lit ''Q1?'') (lit ''C1?'')) s = (Content (Some (lit ''INVALID'')), s)"
  "fixture_port (critic_prompt (lit ''Q1?'') (lit ''Co1?'')) s = (Content (Some (lit ''VALID'')), s)"
  "fixture_port (critic_prompt (lit ''Q1?'') (lit ''R1?'')) s = (Content (Some (lit ''VALID'')), s)"
  "fixture_port (critic_prompt (lit ''Q2?'') (lit ''C2?'')) s = (Content (Some (lit ''INVALID'')), s)"
  "fixture_port (critic_prompt (lit ''Q2?'') (lit ''Co2?'')) s = (Content (Some (lit ''VALID'')), s)"
  "fixture_port (critic_prompt (lit ''Q2?'') (lit ''R2?'')) s = (Content (Some (lit ''VALID'')), s)"
  by (simp_all add: fixture_port_def fixture_answers_def simple_prompt_def complexity_prompt_def
      compression_prompt_def rephrasing_prompt_def critic_prompt_def newline_def dquote_def
      indent_def lit_def)

lemma fixture_texts:
  "py_strip (lit ''Q1?'') = lit ''Q1?''" "py_strip (lit ''Q2?'') = lit ''Q2?''"
  "py_strip (lit ''C1?'') = lit ''C1?''" "py_strip (lit ''Co1?'') = lit ''Co1?''"
  "py_strip (lit ''R1?'') = lit ''R1?''" "py_strip (lit ''C2?'') = lit ''C2?''"
  "py_strip (lit ''Co2?'') = lit ''Co2?''" "py_strip (lit ''R2?'') = lit ''R2?''"
  "lit ''Q1?'' \<noteq> []" "lit ''Q2?'' \<noteq> []" "lit ''C1?'' \<noteq> []" "lit ''Co1?'' \<noteq> []"
  "lit ''R1?'' \<noteq> []" "lit ''C2?'' \<noteq> []" "lit ''Co2?'' \<noteq> []" "lit ''R2?'' \<noteq> []"
  "py_upper (py_strip (lit ''VALID'')) = lit ''VALID''"
  "py_upper (py_strip (lit ''INVALID'')) \<noteq> lit ''VALID''"
  by (simp_all add: lit_def py_strip_def py_isspace_def py_upper_def upper_char_def)

lemma fixture_segments:
  "chunk_document (lit ''Alpha beta gamma delta'') 2 = Inr [lit ''Alpha beta'', lit ''gamma delta'']"
  by (simp add: lit_def chunk_document_def py_split_def py_isspace_def py_range_def py_slice_def
      slice_bound_def)

lemma fixture_questions:
  "generate_simple_questions fixture_port [lit ''Alpha beta'', lit ''gamma delta''] (initial_world ())
     = ([lit ''Q1?'', lit ''Q2?''],
        \<lparr>pstate = (), calls = [(simple_prompt (lit ''Alpha beta''), Some (lit ''Q1?'')),
                                 (simple_prompt (lit ''gamma delta''), Some (lit ''Q2?''))]\<rparr>)"
  by (simp add: generate_simple_questions_def gpt_def fixture_values append_if_truthy_def
      fixture_texts initial_world_def Let_def)

lemma fixture_evolutions:
  "fst (generate_evolved_questions fixture_port [lit ''Q1?'', lit ''Q2?''] w)
     = [(lit ''Q1?'', [lit ''C1?'', lit ''Co1?'', lit ''R1?'']),
        (lit ''Q2?'', [lit ''C2?'', lit ''Co2?'', lit ''R2?''])]"
  by (simp add: generate_evolved_questions_def apply_evolutions_def gpt_def fixture_values
      append_if_truthy_def fixture_texts Let_def)

lemma fixture_validation:
  "fst (validate_evolved_questions fixture_port
       [(lit ''Q1?'', [lit ''C1?'', lit ''Co1?'', lit ''R1?'']),
        (lit ''Q2?'', [lit ''C2?'', lit ''Co2?'', lit ''R2?''])] w)
     = Inr [lit ''Co1?'', lit ''R1?'', lit ''Co2?'', lit ''R2?'']"
  by (simp add: validate_evolved_questions_def critic_def gpt_def fixture_values fixture_texts Let_def)

text \<open>
  C5. With the fixture port, the document \<open>Alpha beta gamma delta\<close> and chunk size 2, the
  segments are \<open>Alpha beta\<close> and \<open>gamma delta\<close>, and the run returns the accepted
  questions \<open>Co1?\<close>, \<open>R1?\<close>, \<open>Co2?\<close>, \<open>R2?\<close> in that order.
\<close>

theorem end_to_end_scenario:
  "chunk_document (lit ''Alpha beta gamma delta'') 2 = Inr [lit ''Alpha beta'', lit ''gamma delta'']
   \<and> fst (pipeline fixture_port (lit ''Alpha beta gamma delta'') 2 (initial_world ()))
       = Inr [lit ''Co1?'', lit ''R1?'', lit ''Co2?'', lit ''R2?'']"
proof
  show "chunk_document (lit ''Alpha beta gamma delta'') 2 = Inr [lit ''Alpha beta'', lit ''gamma delta'']"
    by (rule fixture_segments)
  obtain pairs w2 where e: "generate_evolved_questions fixture_port [lit ''Q1?'', lit ''Q2?'']
      \<lparr>pstate = (), calls = [(simple_prompt (lit ''Alpha beta''), Some (lit ''Q1?'')),
                               (simple_prompt (lit ''gamma delta''), Some (lit ''Q2?''))]\<rparr> = (pairs, w2)"
    by (rule prod.exhaust)
  with fixture_evolutions have p: "pairs = [(lit ''Q1?'', [lit ''C1?'', lit ''Co1?'', lit ''R1?'']),
        (lit ''Q2?'', [lit ''C2?'', lit ''Co2?'', lit ''R2?''])]"
    by (metis fst_conv)
  show "fst (pipeline fixture_port (lit ''Alpha beta gamma delta'') 2 (initial_world ()))
       = Inr [lit ''Co1?'', lit ''R1?'', lit ''Co2?'', lit ''R2?'']"
    by (simp add: pipeline_def fixture_segments fixture_questions e p fixture_validation)
qed

end
